theory Spec2Isabelle
  imports
    Main
    "HOL-Library.Sublist"
    "HOL-Library.List_Lexorder"
    "HOL-Library.Char_ord"
begin

section \<open>The markdown link checker: scripts/check_markdown_links.py\<close>

text \<open>
  The script is modelled as CPython 3.11 runs it on Linux. A Python string is a
  \<^typ>\<open>string\<close> whose characters are the code points below 256, so every list of
  characters is a text; a file that does not decode as UTF-8 cannot be written down. The
  three regular expressions of the script only name single characters and negated
  one-character classes.

  The file system is a list of regular files with their texts, together with the current
  directory of the process; a directory is any proper prefix of the location of a file.
  There are no symbolic links, no empty directories and no permissions. Every exception
  that \<^verbatim>\<open>pathlib\<close> or \<^verbatim>\<open>open\<close> raises on such a file system is a result of the
  model: a NUL character in a path, a name of more than 255 bytes, a path of 4096 bytes or
  more, a directory where a file is read.
\<close>

subsection \<open>String helpers\<close>

definition startswith :: "string \<Rightarrow> string \<Rightarrow> bool" where
  "startswith s pre = (take (length pre) s = pre)"

definition endswith :: "string \<Rightarrow> string \<Rightarrow> bool" where
  "endswith s suf = (length suf \<le> length s \<and> drop (length s - length suf) s = suf)"

text \<open>\<^verbatim>\<open>s.split(d)\<close> for a one-character separator: never the empty list.\<close>

fun split_str :: "char \<Rightarrow> string \<Rightarrow> string list" where
  "split_str d [] = [[]]"
| "split_str d (c # cs) =
     (if c = d then [] # split_str d cs
      else (case split_str d cs of
              [] \<Rightarrow> [[c]]
            | w # ws \<Rightarrow> (c # w) # ws))"

text \<open>\<^verbatim>\<open>sep.join(parts)\<close>.\<close>

fun join_str :: "string \<Rightarrow> string list \<Rightarrow> string" where
  "join_str sep [] = []"
| "join_str sep [w] = w"
| "join_str sep (w # v # ws) = w @ sep @ join_str sep (v # ws)"

text \<open>\<^verbatim>\<open>s.index(sub)\<close>: the position of the first occurrence, \<open>None\<close> for ValueError.\<close>

fun index_of :: "string \<Rightarrow> string \<Rightarrow> nat option" where
  "index_of [] sub = (if sub = [] then Some 0 else None)"
| "index_of (c # cs) sub =
     (if startswith (c # cs) sub then Some 0 else map_option Suc (index_of cs sub))"

text \<open>The number of bytes of a text in UTF-8, the encoding of file names.\<close>

definition utf8_length :: "string \<Rightarrow> nat" where
  "utf8_length s = sum_list (map (\<lambda>c. if of_char c < (0x80 :: nat) then 1 else 2) s)"

subsection \<open>Pure paths (pathlib, POSIX flavour)\<close>

datatype py_error =
    ValueError
  | OSError
  | FileNotFoundError
  | NotADirectoryError
  | IsADirectoryError

text \<open>
  A path object: its root (none, \<^verbatim>\<open>/\<close>, or \<^verbatim>\<open>//\<close>, which POSIX keeps apart) and its
  parts after the root. Constructing a path drops empty parts and \<^verbatim>\<open>.\<close>, and keeps
  \<^verbatim>\<open>..\<close>.
\<close>

datatype anchor = Relative | Root | Double_slash

record ppath =
  anchor :: anchor
  parts :: "string list"

text \<open>\<^verbatim>\<open>Path(s)\<close>.\<close>

definition parse_path :: "string \<Rightarrow> ppath" where
  "parse_path s =
     \<lparr>anchor =
        (if startswith s ''//'' \<and> \<not> startswith s ''///'' then Double_slash
         else if startswith s ''/'' then Root
         else Relative),
      parts = filter (\<lambda>c. c \<noteq> [] \<and> c \<noteq> ''.'') (split_str CHR ''/'' s)\<rparr>"

text \<open>\<^verbatim>\<open>str(p)\<close>.\<close>

definition path_str :: "ppath \<Rightarrow> string" where
  "path_str p =
     (case anchor p of
        Relative \<Rightarrow> (if parts p = [] then ''.'' else join_str ''/'' (parts p))
      | Root \<Rightarrow> ''/'' @ join_str ''/'' (parts p)
      | Double_slash \<Rightarrow> ''//'' @ join_str ''/'' (parts p))"

text \<open>\<^verbatim>\<open>p.parent\<close>: lexical; the parent of a path without parts is the path itself.\<close>

definition parent :: "ppath \<Rightarrow> ppath" where
  "parent p = p\<lparr>parts := butlast (parts p)\<rparr>"

text \<open>\<^verbatim>\<open>p / s\<close>: a string with a root replaces \<open>p\<close>.\<close>

definition joinpath :: "ppath \<Rightarrow> string \<Rightarrow> ppath" where
  "joinpath p s =
     (if anchor (parse_path s) = Relative then p\<lparr>parts := parts p @ parts (parse_path s)\<rparr>
      else parse_path s)"

text \<open>
  \<^verbatim>\<open>p.relative_to(root)\<close>: the two must have the same root, and the parts of \<open>root\<close>
  must be the first parts of \<open>p\<close>; otherwise ValueError.
\<close>

definition relative_to :: "ppath \<Rightarrow> ppath \<Rightarrow> py_error + ppath" where
  "relative_to p root =
     (if anchor p = anchor root \<and> prefix (parts root) (parts p)
      then Inr \<lparr>anchor = Relative, parts = drop (length (parts root)) (parts p)\<rparr>
      else Inl ValueError)"

text \<open>The key by which \<^verbatim>\<open>sorted\<close> orders paths: the root, then the parts.\<close>

definition cparts :: "ppath \<Rightarrow> string list" where
  "cparts p =
     (case anchor p of Relative \<Rightarrow> [] | Root \<Rightarrow> [''/''] | Double_slash \<Rightarrow> [''//''])
     @ parts p"

definition has_nul :: "ppath \<Rightarrow> bool" where
  "has_nul p = (\<exists>c \<in> set (parts p). CHR 0x00 \<in> set c)"

subsection \<open>The file system\<close>

text \<open>A location is the list of names from the root down to a file or a directory.\<close>

record filesystem =
  files :: "(string list \<times> string) list"
  cwd :: "string list"

datatype node = File string | Directory

definition node_at :: "filesystem \<Rightarrow> string list \<Rightarrow> node option" where
  "node_at fs loc =
     (case map_of (files fs) loc of
        Some content \<Rightarrow> Some (File content)
      | None \<Rightarrow>
          if loc = [] \<or> (\<exists>q \<in> set (map fst (files fs)). strict_prefix loc q)
          then Some Directory
          else None)"

datatype os_error = ENAMETOOLONG | ENOENT | ENOTDIR

text \<open>
  The kernel's walk along the names of a path, from the location \<open>cur\<close>: every step
  needs a directory to step from, \<^verbatim>\<open>..\<close> steps up, a name of more than 255 bytes is
  refused, and a name that is not there ends the walk.
\<close>

fun os_walk :: "filesystem \<Rightarrow> string list \<Rightarrow> string list \<Rightarrow> os_error + string list" where
  "os_walk fs cur [] = Inr cur"
| "os_walk fs cur (c # cs) =
     (if node_at fs cur \<noteq> Some Directory then Inl ENOTDIR
      else if c = ''..'' then os_walk fs (butlast cur) cs
      else if 255 < utf8_length c then Inl ENAMETOOLONG
      else if node_at fs (cur @ [c]) = None then Inl ENOENT
      else os_walk fs (cur @ [c]) cs)"

text \<open>What a system call finds under \<^verbatim>\<open>str(p)\<close>; a path of 4096 bytes or more is
  refused before the walk.\<close>

definition os_locate :: "filesystem \<Rightarrow> ppath \<Rightarrow> os_error + string list" where
  "os_locate fs p =
     (if 4096 \<le> utf8_length (path_str p) then Inl ENAMETOOLONG
      else os_walk fs (if anchor p = Relative then cwd fs else []) (parts p))"

text \<open>
  \<^verbatim>\<open>p.exists()\<close> and \<^verbatim>\<open>p.is_dir()\<close>: both answer \<open>False\<close> for a path with a NUL
  character (ValueError is caught) and for a path that is not there, and let any other
  error of the system call through.
\<close>

definition path_exists :: "filesystem \<Rightarrow> ppath \<Rightarrow> py_error + bool" where
  "path_exists fs p =
     (if has_nul p then Inr False
      else (case os_locate fs p of
              Inl ENAMETOOLONG \<Rightarrow> Inl OSError
            | Inl ENOENT \<Rightarrow> Inr False
            | Inl ENOTDIR \<Rightarrow> Inr False
            | Inr loc \<Rightarrow> Inr True))"

definition path_is_dir :: "filesystem \<Rightarrow> ppath \<Rightarrow> py_error + bool" where
  "path_is_dir fs p =
     (if has_nul p then Inr False
      else (case os_locate fs p of
              Inl ENAMETOOLONG \<Rightarrow> Inl OSError
            | Inl ENOENT \<Rightarrow> Inr False
            | Inl ENOTDIR \<Rightarrow> Inr False
            | Inr loc \<Rightarrow> Inr (node_at fs loc = Some Directory)))"

text \<open>\<^verbatim>\<open>open(p, 'r', encoding='utf-8').read()\<close>.\<close>

definition open_read :: "filesystem \<Rightarrow> ppath \<Rightarrow> py_error + string" where
  "open_read fs p =
     (if has_nul p then Inl ValueError
      else (case os_locate fs p of
              Inl ENAMETOOLONG \<Rightarrow> Inl OSError
            | Inl ENOENT \<Rightarrow> Inl FileNotFoundError
            | Inl ENOTDIR \<Rightarrow> Inl NotADirectoryError
            | Inr loc \<Rightarrow>
                (case node_at fs loc of
                   Some (File content) \<Rightarrow> Inr content
                 | Some Directory \<Rightarrow> Inl IsADirectoryError
                 | None \<Rightarrow> Inl FileNotFoundError)))"

text \<open>
  \<^verbatim>\<open>p.resolve()\<close>: \<^verbatim>\<open>os.path.realpath\<close> raises ValueError on a NUL character and
  otherwise, there being no symbolic links, works on the names alone, from the current
  directory for a relative path: empty names and \<^verbatim>\<open>.\<close> are dropped, \<^verbatim>\<open>..\<close> steps to the
  parent (and stays at the root), any other name is appended whether it exists or not.
\<close>

fun realpath_walk :: "string list \<Rightarrow> string list \<Rightarrow> string list" where
  "realpath_walk p [] = p"
| "realpath_walk p (n # ns) =
     (if n = [] \<or> n = ''.'' then realpath_walk p ns
      else if n = ''..'' then realpath_walk (butlast p) ns
      else realpath_walk (p @ [n]) ns)"

text \<open>One step of that walk.\<close>

definition walk_step :: "string list \<Rightarrow> string \<Rightarrow> string list" where
  "walk_step p n = (if n = [] \<or> n = ''.'' then p else if n = ''..'' then butlast p else p @ [n])"

definition resolve :: "filesystem \<Rightarrow> ppath \<Rightarrow> py_error + ppath" where
  "resolve fs p =
     (if has_nul p then Inl ValueError
      else Inr \<lparr>anchor = Root,
                parts = realpath_walk []
                          ((if anchor p = Relative then cwd fs else []) @ parts p)\<rparr>)"

text \<open>
  The entries below a directory at the location \<open>base\<close>, each as the list of names that
  leads to it from there.
\<close>

definition entries_below :: "filesystem \<Rightarrow> string list \<Rightarrow> string list list" where
  "entries_below fs base =
     remdups (concat (map (\<lambda>q. if strict_prefix base q
                                 then tl (prefixes (drop (length base) q)) else [])
                          (map fst (files fs))))"

text \<open>
  \<^verbatim>\<open>list(docs_dir.rglob('*.md'))\<close>: nothing unless \<open>docs_dir\<close> is a directory; every
  directory from there down is listed, which the system refuses (OSError) for a path of
  4096 bytes or more; the entries whose name ends in \<^verbatim>\<open>.md\<close> are the result, files and
  directories alike.
\<close>

definition rglob_md :: "filesystem \<Rightarrow> ppath \<Rightarrow> py_error + ppath list" where
  "rglob_md fs docs_dir =
     (case path_is_dir fs docs_dir of
        Inl e \<Rightarrow> Inl e
      | Inr False \<Rightarrow> Inr []
      | Inr True \<Rightarrow>
          (case os_locate fs docs_dir of
             Inl e \<Rightarrow> Inr []
           | Inr base \<Rightarrow>
               let below = entries_below fs base;
                   child = (\<lambda>r. docs_dir\<lparr>parts := parts docs_dir @ r\<rparr>);
                   listed = docs_dir # map child
                              (filter (\<lambda>r. node_at fs (base @ r) = Some Directory) below)
               in if \<exists>d \<in> set listed. 4096 \<le> utf8_length (path_str d) then Inl OSError
                  else Inr (map child (filter (\<lambda>r. endswith (last r) ''.md'') below))))"

subsection \<open>extract_links\<close>

definition fence :: string where
  "fence = [CHR 0x60, CHR 0x60, CHR 0x60]"

text \<open>The text after the first fence in \<open>s\<close>, if there is one.\<close>

fun skip_to_fence :: "string \<Rightarrow> string option" where
  "skip_to_fence [] = None"
| "skip_to_fence (c # cs) =
     (if startswith (c # cs) fence then Some (drop 3 (c # cs)) else skip_to_fence cs)"

lemma skip_to_fence_length: "skip_to_fence s = Some r \<Longrightarrow> length r \<le> length s"
  by (induction s) (auto split: if_splits)

text \<open>
  \<^verbatim>\<open>re.sub(r'```.*?```', '', content, flags=re.DOTALL)\<close>: scanning from the left, an
  opening fence together with everything up to and including the nearest later fence is
  deleted; an opening fence with no later fence stays.
\<close>

function remove_fenced :: "string \<Rightarrow> string" where
  "remove_fenced [] = []"
| "remove_fenced (c # cs) =
     (if startswith (c # cs) fence then
        (case skip_to_fence (drop 3 (c # cs)) of
           Some rest \<Rightarrow> remove_fenced rest
         | None \<Rightarrow> c # remove_fenced cs)
      else c # remove_fenced cs)"
  by pat_completeness auto
termination
proof (relation "measure length")
  fix c :: char and cs rest :: string
  assume "skip_to_fence (drop 3 (c # cs)) = Some rest"
  then have "length rest \<le> length (drop 3 (c # cs))"
    by (rule skip_to_fence_length)
  then show "(rest, c # cs) \<in> measure length"
    by simp
qed simp_all

definition not_tick :: "char \<Rightarrow> bool" where
  "not_tick x = (x \<noteq> CHR 0x60)"

text \<open>
  \<^verbatim>\<open>re.sub(r'`[^`]+`', '', content_no_code)\<close>: a backquote, the longest run of other
  characters after it (at least one), and the backquote that ends the run are deleted.
\<close>

function remove_inline :: "string \<Rightarrow> string" where
  "remove_inline [] = []"
| "remove_inline (c # cs) =
     (if c = CHR 0x60 \<and> takeWhile not_tick cs \<noteq> [] \<and> dropWhile not_tick cs \<noteq> []
      then remove_inline (tl (dropWhile not_tick cs))
      else c # remove_inline cs)"
  by pat_completeness auto
termination
proof (relation "measure length")
  fix c :: char and cs :: string
  have "length (tl (dropWhile not_tick cs)) \<le> length cs"
    using length_dropWhile_le [of not_tick cs] by simp
  then show "(tl (dropWhile not_tick cs), c # cs) \<in> measure length"
    by simp
qed simp_all

text \<open>
  One match of \<^verbatim>\<open>\[([^\]]+)\]\(([^\)]+)\)\<close> at the head of \<open>s\<close>: the two groups and the
  text after the match.
\<close>

definition match_link :: "string \<Rightarrow> ((string \<times> string) \<times> string) option" where
  "match_link s =
     (case s of
        [] \<Rightarrow> None
      | c # cs \<Rightarrow>
          if c \<noteq> CHR ''['' then None
          else
            let link_text = takeWhile (\<lambda>x. x \<noteq> CHR '']'') cs;
                r1 = dropWhile (\<lambda>x. x \<noteq> CHR '']'') cs
            in if link_text = [] then None
               else
                 (case r1 of
                    a # b # r2 \<Rightarrow>
                      if b \<noteq> CHR ''('' then None
                      else
                        let link_url = takeWhile (\<lambda>x. x \<noteq> CHR '')'') r2;
                            r3 = dropWhile (\<lambda>x. x \<noteq> CHR '')'') r2
                        in if link_url = [] \<or> r3 = [] then None
                           else Some ((link_text, link_url), tl r3)
                  | _ \<Rightarrow> None))"

lemma match_link_length: "match_link s = Some (l, rest) \<Longrightarrow> length rest < length s"
proof -
  assume m: "match_link s = Some (l, rest)"
  then obtain c cs where s: "s = c # cs"
    by (cases s) (auto simp: match_link_def)
  let ?r1 = "dropWhile (\<lambda>x. x \<noteq> CHR '']'') cs"
  from m s obtain a b r2 where r1: "?r1 = a # b # r2"
    by (auto simp: match_link_def Let_def split: if_splits list.splits)
  let ?r3 = "dropWhile (\<lambda>x. x \<noteq> CHR '')'') r2"
  from m s r1 have rest: "rest = tl ?r3"
    by (auto simp: match_link_def Let_def split: if_splits)
  have "length ?r3 \<le> length r2"
    by (rule length_dropWhile_le)
  moreover have "length ?r1 \<le> length cs"
    by (rule length_dropWhile_le)
  ultimately show ?thesis
    using s r1 rest by simp
qed

text \<open>\<^verbatim>\<open>re.finditer\<close>: the matches from left to right, none overlapping another.\<close>

function find_links :: "string \<Rightarrow> (string \<times> string) list" where
  "find_links [] = []"
| "find_links (c # cs) =
     (case match_link (c # cs) of
        Some (l, rest) \<Rightarrow> l # find_links rest
      | None \<Rightarrow> find_links cs)"
  by pat_completeness auto
termination
proof (relation "measure length")
  fix c :: char and cs rest :: string and l x
  assume "match_link (c # cs) = Some x" and "(l, rest) = x"
  then have "match_link (c # cs) = Some (l, rest)"
    by simp
  then show "(rest, c # cs) \<in> measure length"
    using match_link_length by fastforce
qed simp_all

text \<open>
  The line of a match: \<^verbatim>\<open>content.index(match.group(0))\<close> in the original text, the
  newlines before it plus one, and \<open>-1\<close> when the matched text is not in the original.
\<close>

definition line_number :: "string \<Rightarrow> string \<Rightarrow> int" where
  "line_number content matched =
     (case index_of content matched of
        Some match_pos \<Rightarrow> int (count_list (take match_pos content) (CHR 0x0A)) + 1
      | None \<Rightarrow> - 1)"

text \<open>The body of \<^verbatim>\<open>extract_links\<close> after the file is read.\<close>

definition links_of_content :: "string \<Rightarrow> (string \<times> string \<times> int) list" where
  "links_of_content content =
     map (\<lambda>(link_text, link_url).
            (link_text, link_url,
             line_number content (''['' @ link_text @ '']('' @ link_url @ '')'')))
         (find_links (remove_inline (remove_fenced content)))"

definition extract_links :: "filesystem \<Rightarrow> ppath \<Rightarrow> py_error + (string \<times> string \<times> int) list" where
  "extract_links fs file_path =
     (case open_read fs file_path of
        Inl e \<Rightarrow> Inl e
      | Inr content \<Rightarrow> Inr (links_of_content content))"

subsection \<open>resolve_link\<close>

datatype link_type = Local | External | Mailto | Anchor_only

definition resolve_link ::
  "filesystem \<Rightarrow> ppath \<Rightarrow> string \<Rightarrow> py_error + (ppath option \<times> link_type)" where
  "resolve_link fs source_file url =
     (let url_without_anchor = hd (split_str CHR ''#'' url)
      in if startswith url_without_anchor ''http://''
            \<or> startswith url_without_anchor ''https://''
            \<or> startswith url_without_anchor ''ftp://''
         then Inr (None, External)
         else if startswith url_without_anchor ''mailto:'' then Inr (None, Mailto)
         else if url_without_anchor = [] then Inr (None, Anchor_only)
         else
           let source_dir = parent source_file
           in (case resolve fs (joinpath source_dir url_without_anchor) of
                 Inl e \<Rightarrow> Inl e
               | Inr target_path \<Rightarrow> Inr (Some target_path, Local)))"

subsection \<open>main\<close>

record broken_link =
  source :: ppath
  link_text :: string
  link_url :: string
  resolved_path :: ppath
  line_num :: int
  reason :: string

text \<open>A loop whose body may raise: the results in order, or the first exception.\<close>

fun map_result :: "('a \<Rightarrow> 'e + 'b) \<Rightarrow> 'a list \<Rightarrow> 'e + 'b list" where
  "map_result f [] = Inr []"
| "map_result f (x # xs) =
     (case f x of
        Inl e \<Rightarrow> Inl e
      | Inr y \<Rightarrow> (case map_result f xs of Inl e \<Rightarrow> Inl e | Inr ys \<Rightarrow> Inr (y # ys)))"

text \<open>
  The body of the inner loop of \<^verbatim>\<open>main\<close> for one extracted link. The tag
  \<open>Local\<close> always comes with a path (lemma \<open>resolve_link_local_path\<close> below), so
  \<^verbatim>\<open>target_path.exists()\<close> is never called on \<^verbatim>\<open>None\<close>.
\<close>

definition check_link ::
  "filesystem \<Rightarrow> ppath \<Rightarrow> string \<times> string \<times> int \<Rightarrow> py_error + broken_link list" where
  "check_link fs md_file l =
     (case l of (text, url, ln) \<Rightarrow>
        (case resolve_link fs md_file url of
           Inl e \<Rightarrow> Inl e
         | Inr (Some target_path, Local) \<Rightarrow>
             (case path_exists fs target_path of
                Inl e \<Rightarrow> Inl e
              | Inr True \<Rightarrow> Inr []
              | Inr False \<Rightarrow>
                  Inr [\<lparr>source = md_file, link_text = text, link_url = url,
                        resolved_path = target_path, line_num = ln,
                        reason = ''File not found''\<rparr>])
         | Inr other \<Rightarrow> Inr []))"

text \<open>The body of the outer loop for one markdown file: the links it adds to
  \<^verbatim>\<open>all_links\<close> and to \<^verbatim>\<open>broken_links\<close>.\<close>

definition check_file ::
  "filesystem \<Rightarrow> ppath \<Rightarrow> py_error + ((ppath \<times> string \<times> string) list \<times> broken_link list)" where
  "check_file fs md_file =
     (case extract_links fs md_file of
        Inl e \<Rightarrow> Inl e
      | Inr links \<Rightarrow>
          (case map_result (check_link fs md_file) links of
             Inl e \<Rightarrow> Inl e
           | Inr found \<Rightarrow>
               Inr (map (\<lambda>(text, url, ln). (md_file, text, url)) links, concat found)))"

text \<open>\<^verbatim>\<open>Path(__file__).parent.parent\<close>.\<close>

definition repo_root :: "string \<Rightarrow> ppath" where
  "repo_root file_name = parent (parent (parse_path file_name))"

text \<open>
  The list \<^verbatim>\<open>md_files\<close>: what \<^verbatim>\<open>rglob\<close> finds below \<^verbatim>\<open>docs\<close>, then
  \<^verbatim>\<open>README.md\<close> if it exists.
\<close>

definition md_files :: "filesystem \<Rightarrow> ppath \<Rightarrow> py_error + ppath list" where
  "md_files fs root =
     (case rglob_md fs (joinpath root ''docs'') of
        Inl e \<Rightarrow> Inl e
      | Inr found \<Rightarrow>
          (case path_exists fs (joinpath root ''README.md'') of
             Inl e \<Rightarrow> Inl e
           | Inr True \<Rightarrow> Inr (found @ [joinpath root ''README.md''])
           | Inr False \<Rightarrow> Inr found))"

text \<open>The two nested loops of \<^verbatim>\<open>main\<close> over \<^verbatim>\<open>sorted(md_files)\<close>.\<close>

definition check_files ::
  "filesystem \<Rightarrow> ppath list \<Rightarrow> py_error + ((ppath \<times> string \<times> string) list \<times> broken_link list)" where
  "check_files fs mds =
     (case map_result (check_file fs) (sort_key cparts mds) of
        Inl e \<Rightarrow> Inl e
      | Inr rs \<Rightarrow> Inr (concat (map fst rs), concat (map snd rs)))"

text \<open>The list \<^verbatim>\<open>broken_links\<close> when the loops are through.\<close>

definition broken_links :: "filesystem \<Rightarrow> ppath \<Rightarrow> py_error + broken_link list" where
  "broken_links fs root =
     (case md_files fs root of
        Inl e \<Rightarrow> Inl e
      | Inr mds \<Rightarrow>
          (case check_files fs mds of
             Inl e \<Rightarrow> Inl e
           | Inr (links, bl) \<Rightarrow> Inr bl))"

text \<open>The dictionary \<^verbatim>\<open>by_file\<close>, in insertion order.\<close>

definition by_file_add ::
  "(ppath \<times> broken_link list) list \<Rightarrow> broken_link \<Rightarrow> (ppath \<times> broken_link list) list" where
  "by_file_add by_file broken =
     (case map_of by_file (source broken) of
        None \<Rightarrow> by_file @ [(source broken, [broken])]
      | Some issues \<Rightarrow>
          map (\<lambda>(k, v). if k = source broken then (k, v @ [broken]) else (k, v)) by_file)"

definition group_by_file :: "broken_link list \<Rightarrow> (ppath \<times> broken_link list) list" where
  "group_by_file bl = foldl by_file_add [] bl"

datatype report_line =
    Report_header nat nat nat
  | File_line string nat
  | Line_line int
  | Location_unknown
  | Link_line string string
  | Target_line string
  | Status_line string
  | Summary_header nat
  | Missing_line string
  | All_valid

text \<open>
  The lines printed for one broken link. The conversion of the target to a path relative
  to the root is inside \<^verbatim>\<open>try\<close>/\<^verbatim>\<open>except ValueError\<close>, which prints the
  resolved path as it is.
\<close>

definition report_issue :: "ppath \<Rightarrow> broken_link \<Rightarrow> report_line list" where
  "report_issue root broken =
     [if line_num broken > 0 then Line_line (line_num broken) else Location_unknown,
      Link_line (link_text broken) (link_url broken),
      (case relative_to (resolved_path broken) root of
         Inr rel \<Rightarrow> Target_line (path_str rel)
       | Inl e \<Rightarrow> Target_line (path_str (resolved_path broken))),
      Status_line (reason broken)]"

definition report_file :: "ppath \<Rightarrow> ppath \<times> broken_link list \<Rightarrow> py_error + report_line list" where
  "report_file root item =
     (case item of (source_file, issues) \<Rightarrow>
        (case relative_to source_file root of
           Inl e \<Rightarrow> Inl e
         | Inr rel_source \<Rightarrow>
             Inr (File_line (path_str rel_source) (length issues)
                  # concat (map (report_issue root) issues))))"

text \<open>
  The summary loop: the set \<^verbatim>\<open>missing_files\<close>, sorted. Here the conversion stands
  outside any \<^verbatim>\<open>try\<close>.
\<close>

definition missing_files :: "ppath \<Rightarrow> broken_link list \<Rightarrow> py_error + string list" where
  "missing_files root bl =
     (case map_result (\<lambda>broken. relative_to (resolved_path broken) root) bl of
        Inl e \<Rightarrow> Inl e
      | Inr targets \<Rightarrow> Inr (sort (remdups (map path_str targets))))"

text \<open>
  \<^verbatim>\<open>main\<close>, given the file system and the string \<^verbatim>\<open>__file__\<close>: what it prints, and
  how it ends, with an exception or with the exit code it returns. Nothing is printed
  before the loops are through.
\<close>

definition main :: "filesystem \<Rightarrow> string \<Rightarrow> report_line list \<times> (py_error + int)" where
  "main fs file_name =
     (let root = repo_root file_name
      in case md_files fs root of
           Inl e \<Rightarrow> ([], Inl e)
         | Inr mds \<Rightarrow>
             (case check_files fs mds of
                Inl e \<Rightarrow> ([], Inl e)
              | Inr (all_links, bl) \<Rightarrow>
                  let header = [Report_header (length mds) (length all_links) (length bl)]
                  in if bl \<noteq> [] then
                       (case map_result (report_file root)
                               (sort_key (\<lambda>item. cparts (fst item)) (group_by_file bl)) of
                          Inl e \<Rightarrow> (header, Inl e)
                        | Inr printed \<Rightarrow>
                            (case missing_files root bl of
                               Inl e \<Rightarrow> (header @ concat printed, Inl e)
                             | Inr missing \<Rightarrow>
                                 (header @ concat printed
                                    @ Summary_header (length missing) # map Missing_line missing,
                                  Inr 1)))
                     else (header @ [All_valid], Inr 0)))"

subsection \<open>Example file systems\<close>

definition example_file_name :: string where
  "example_file_name = ''/repo/scripts/check_markdown_links.py''"

definition example_fs_inside :: filesystem where
  "example_fs_inside =
     \<lparr>files =
        [([''repo'', ''docs'', ''a.md''], ''[x](missing.md) [ok](b.md) [w](http://e.org/z.md)''),
         ([''repo'', ''docs'', ''b.md''], ''[up](../README.md)''),
         ([''repo'', ''README.md''], ''[d](docs/) [e](docs/a.md)'')],
      cwd = [''repo'']\<rparr>"

definition example_fs_outside :: filesystem where
  "example_fs_outside =
     \<lparr>files =
        [([''repo'', ''docs'', ''a.md''], ''[x](../../outside.md) [ok](b.md)''),
         ([''repo'', ''docs'', ''b.md''], ''[up](../README.md)''),
         ([''repo'', ''README.md''], ''[d](docs/) [e](docs/a.md)''),
         ([''repo'', ''scripts'', ''check_markdown_links.py''], [])],
      cwd = [''repo'']\<rparr>"

definition example_broken :: broken_link where
  "example_broken =
     \<lparr>source = \<lparr>anchor = Root, parts = [''repo'', ''docs'', ''a.md'']\<rparr>, link_text = ''x'',
      link_url = ''../../outside.md'',
      resolved_path = \<lparr>anchor = Root, parts = [''outside.md'']\<rparr>,
      line_num = 1, reason = ''File not found''\<rparr>"

section \<open>The GPIO core behind the bindings\<close>

text \<open>
  The examples under \<^verbatim>\<open>bindings/python/examples\<close> call \<^verbatim>\<open>pinMode\<close> and
  \<^verbatim>\<open>Wire.scan\<close> of the extension module \<^verbatim>\<open>pypipinpp\<close>; \<^verbatim>\<open>setup.py\<close> builds that
  module from \<^verbatim>\<open>pin.cpp\<close>, \<^verbatim>\<open>ArduinoCompat.cpp\<close>, \<^verbatim>\<open>Wire.cpp\<close> and others, none
  of which is among the source files. The definitions of this section are therefore
  written from the specification.
\<close>

subsection \<open>Errors and the pin registry\<close>

text \<open>Modelled from the spec: the error taxonomy of section 7 (the C++ sources that raise
  these errors are missing).\<close>

datatype error =
    InvalidPin
  | InvalidState
  | NotInitialized
  | LineBusy
  | DeviceIOError
  | Timeout
  | DroppedEvents

text \<open>Modelled from the spec: the modes \<^verbatim>\<open>pinMode\<close> accepts (section 3; \<^verbatim>\<open>pin.cpp\<close> is
  missing). The fifth mode of the data model, UNSET, is the absence of a mode: a registry
  entry holds \<open>None\<close>.\<close>

datatype pin_mode = OUTPUT | INPUT | INPUT_PULLUP | INPUT_PULLDOWN

datatype level = LOW | HIGH

datatype edge = RISING | FALLING | CHANGE

text \<open>Modelled from the spec: a kernel line is a chip and a line offset (section 2,
  PlatformAdapter; \<^verbatim>\<open>platform.cpp\<close> is missing).\<close>

type_synonym line = "nat \<times> nat"

text \<open>Modelled from the spec: the Pin of section 3 (\<^verbatim>\<open>pin.cpp\<close> is missing).\<close>

record pin =
  mode :: "pin_mode option"
  lastLevel :: level
  owningHandle :: "line option"

text \<open>Modelled from the spec: the PwmChannel of section 3, keyed by its pin
  (\<^verbatim>\<open>pwm.cpp\<close> is missing).\<close>

record pwm_channel =
  dutyCycle :: nat
  periodMicros :: nat
  running :: bool

text \<open>Modelled from the spec: the InterruptBinding of section 3, keyed by its pin, the
  callback named by a number (\<^verbatim>\<open>interrupts.cpp\<close> is missing).\<close>

record interrupt_binding =
  trigger :: edge
  callback :: nat
  enabled :: bool

text \<open>Modelled from the spec: the state behind the API of section 6: the PlatformAdapter's
  map from logical pin numbers to lines (a pin it does not map is out of range), the lines
  held by someone else, the PinRegistry, and the PWM channels and interrupt bindings, at
  most one of each per pin (\<^verbatim>\<open>pin.cpp\<close>, \<^verbatim>\<open>platform.cpp\<close>, \<^verbatim>\<open>pwm.cpp\<close> and
  \<^verbatim>\<open>interrupts.cpp\<close> are missing).\<close>

record controller =
  adapter :: "int \<Rightarrow> line option"
  held_elsewhere :: "line \<Rightarrow> bool"
  pins :: "int \<Rightarrow> pin"
  pwm :: "int \<Rightarrow> pwm_channel option"
  interrupts :: "int \<Rightarrow> interrupt_binding option"

text \<open>Modelled from the spec: a pin is registered lazily and starts without a mode
  (section 3; \<^verbatim>\<open>pin.cpp\<close> is missing).\<close>

definition unset_pin :: pin where
  "unset_pin = \<lparr>mode = None, lastLevel = LOW, owningHandle = None\<rparr>"

text \<open>Modelled from the spec: \<^verbatim>\<open>pinMode(pin, mode)\<close> of section 4.1 (\<^verbatim>\<open>pin.cpp\<close> and
  \<^verbatim>\<open>ArduinoCompat.cpp\<close> are missing). It validates the pin range and fails with
  InvalidPin; it fails with LineBusy when the line is held elsewhere; otherwise it tears
  down the PWM channel and the interrupt binding of the pin first, takes the line and
  sets the mode. The result is the error, if any, and the state after the call; a failed
  call leaves the state as it was.\<close>

definition pinMode :: "int \<Rightarrow> pin_mode \<Rightarrow> controller \<Rightarrow> error option \<times> controller" where
  "pinMode p m c =
     (case adapter c p of
        None \<Rightarrow> (Some InvalidPin, c)
      | Some l \<Rightarrow>
          if held_elsewhere c l then (Some LineBusy, c)
          else
            let torn = c\<lparr>pwm := (pwm c)(p := None), interrupts := (interrupts c)(p := None)\<rparr>
            in (None,
                torn\<lparr>pins := (pins torn)(p := (pins torn p)\<lparr>mode := Some m,
                                                             owningHandle := Some l\<rparr>)\<rparr>))"

text \<open>Modelled from the spec: the mode query of section 8 (\<^verbatim>\<open>pin.cpp\<close> is missing);
  \<open>None\<close> stands for UNSET.\<close>

definition mode_query :: "controller \<Rightarrow> int \<Rightarrow> pin_mode option" where
  "mode_query c p = mode (pins c p)"

subsection \<open>Wire\<close>

text \<open>Modelled from the spec: the BusHandle of section 3 (\<^verbatim>\<open>Wire.cpp\<close> is missing).\<close>

record bus_handle =
  deviceHandle :: nat
  addressOrConfig :: nat
  lastError :: "error option"

text \<open>Modelled from the spec: what a zero-length write to an address can give: an
  acknowledgement, none, or a transport failure (sections 4.4 and 7; \<^verbatim>\<open>Wire.cpp\<close> is
  missing). The devices on the bus are a function from addresses to these outcomes.\<close>

datatype probe_result = Ack | Nack | IOFailure

type_synonym i2c_devices = "nat \<Rightarrow> probe_result"

text \<open>Modelled from the spec: the device I/O that Wire issues, recorded in order
  (\<^verbatim>\<open>Wire.cpp\<close> is missing).\<close>

datatype i2c_io = ZeroLengthWrite nat

text \<open>Modelled from the spec: the state of Wire: the handle that \<^verbatim>\<open>begin()\<close> creates and
  \<^verbatim>\<open>end()\<close> destroys, and the I/O issued so far (sections 3 and 4.4; \<^verbatim>\<open>Wire.cpp\<close> is
  missing).\<close>

record wire_state =
  handle :: "bus_handle option"
  io_log :: "i2c_io list"

text \<open>Modelled from the spec: the probe loop of \<^verbatim>\<open>scan()\<close> (section 4.4; \<^verbatim>\<open>Wire.cpp\<close> is
  missing): one zero-length write per address; an address that acknowledges is appended
  to the result, and a transport failure counts as no device (section 7).\<close>

fun scan_loop :: "i2c_devices \<Rightarrow> nat list \<Rightarrow> wire_state \<Rightarrow> nat list \<Rightarrow> nat list \<times> wire_state" where
  "scan_loop bus [] w found = (found, w)"
| "scan_loop bus (a # as) w found =
     (let w' = w\<lparr>io_log := io_log w @ [ZeroLengthWrite a]\<rparr>
      in case bus a of
           Ack \<Rightarrow> scan_loop bus as w' (found @ [a])
         | Nack \<Rightarrow> scan_loop bus as w' found
         | IOFailure \<Rightarrow> scan_loop bus as w' found)"

text \<open>Modelled from the spec: the conventional range of 7-bit addresses that
  \<^verbatim>\<open>scan()\<close> iterates, 0x03 to 0x77 (section 4.4; \<^verbatim>\<open>Wire.cpp\<close> is missing).\<close>

definition scan_addresses :: "nat list" where
  "scan_addresses = [0x03 ..< 0x78]"

text \<open>Modelled from the spec: \<^verbatim>\<open>Wire.scan()\<close> (section 4.4; \<^verbatim>\<open>Wire.cpp\<close> is missing):
  NotInitialized before \<^verbatim>\<open>begin()\<close>, otherwise the probe loop over the address
  range.\<close>

definition scan :: "i2c_devices \<Rightarrow> wire_state \<Rightarrow> (error + nat list) \<times> wire_state" where
  "scan bus w =
     (case handle w of
        None \<Rightarrow> (Inl NotInitialized, w)
      | Some h \<Rightarrow>
          (case scan_loop bus scan_addresses w [] of
             (found, w') \<Rightarrow> (Inr found, w')))"

subsection \<open>Example states\<close>

definition example_devices :: i2c_devices where
  "example_devices a =
     (if a = 0x23 \<or> a = 0x68 then Ack else if a = 0x50 then IOFailure else Nack)"

definition example_wire :: wire_state where
  "example_wire =
     \<lparr>handle = Some \<lparr>deviceHandle = 3, addressOrConfig = 1, lastError = None\<rparr>,
      io_log = []\<rparr>"

definition example_controller :: controller where
  "example_controller =
     \<lparr>adapter = (\<lambda>p. if 0 \<le> p \<and> p \<le> 27 then Some (0, nat p) else None),
      held_elsewhere = (\<lambda>l. l = (0, 4)),
      pins = (\<lambda>p. unset_pin),
      pwm = (\<lambda>p. if p = 17 then Some \<lparr>dutyCycle = 128, periodMicros = 1000, running = True\<rparr>
                  else None),
      interrupts = (\<lambda>p. None)\<rparr>"

section \<open>Properties of the link checker\<close>

subsection \<open>resolve_link\<close>

lemma split_str_nonempty: "split_str d s \<noteq> []"
  by (induction s) (auto split: list.splits)

lemma hd_split_str: "hd (split_str d s) = takeWhile (\<lambda>c. c \<noteq> d) s"
  by (induction s) (auto split: list.splits simp: split_str_nonempty)

lemma split_str_concat: "concat (map (\<lambda>c. c @ [d]) (split_str d s)) = s @ [d]"
  by (induction s) (auto split: list.splits simp: split_str_nonempty)

lemma split_str_no_sep: "d \<notin> set (concat (split_str d s))"
  by (induction s) (auto split: list.splits simp: split_str_nonempty)

lemma split_str_chars: "set (concat (split_str d s)) = set s - {d}"
proof -
  have "set (concat (map (\<lambda>c. c @ [d]) (split_str d s))) = set (s @ [d])"
    by (simp only: split_str_concat)
  moreover have "set (concat (map (\<lambda>c. c @ [d]) xs)) = set (concat xs) \<union> {d}"
    if "xs \<noteq> []" for xs :: "string list"
    using that by (induction xs) auto
  ultimately have "set (concat (split_str d s)) \<union> {d} = set s \<union> {d}"
    using split_str_nonempty [of d s] by simp
  then show ?thesis
    using split_str_no_sep [of d s] by blast
qed

lemma takeWhile_first_hash:
  "takeWhile (\<lambda>c. c \<noteq> d) s = s \<or> (\<exists>rest. s = takeWhile (\<lambda>c. c \<noteq> d) s @ d # rest)"
proof (cases "dropWhile (\<lambda>c. c \<noteq> d) s")
  case Nil
  then show ?thesis by (metis append_Nil2 takeWhile_dropWhile_id)
next
  case (Cons a rest)
  then have "a = d" using hd_dropWhile [of "\<lambda>c. c \<noteq> d" s] by auto
  then show ?thesis using Cons by (metis takeWhile_dropWhile_id)
qed

lemma startswith_exclusive:
  "startswith u ''mailto:'' \<Longrightarrow>
     \<not> (startswith u ''http://'' \<or> startswith u ''https://'' \<or> startswith u ''ftp://'')"
  by (cases u) (auto simp: startswith_def)

lemma startswith_nonempty: "startswith u (c # p) \<Longrightarrow> u \<noteq> []"
  by (auto simp: startswith_def)

lemma realpath_walk_foldl: "realpath_walk p ns = foldl walk_step p ns"
  by (induction ns arbitrary: p) (simp_all add: walk_step_def)

lemma foldl_walk_filter:
  "foldl walk_step p (filter (\<lambda>c. c \<noteq> [] \<and> c \<noteq> ''.'') ns) = foldl walk_step p ns"
  by (induction ns arbitrary: p) (simp_all add: walk_step_def)

lemma startswith_prefix: "startswith s pre \<longleftrightarrow> prefix pre s"
  unfolding startswith_def by (metis append_eq_conv_conj prefix_def take_is_prefix)

lemma parse_path_relative: "anchor (parse_path u) = Relative \<longleftrightarrow> \<not> startswith u ''/''"
proof -
  have "startswith u ''//'' \<Longrightarrow> startswith u ''/''"
    unfolding startswith_prefix using append_prefixD [of "''/''" "''/''" u] by simp
  then show ?thesis
    by (auto simp: parse_path_def)
qed

lemma parse_path_nul:
  "(\<exists>c \<in> set (parts (parse_path u)). CHR 0x00 \<in> set c) \<longleftrightarrow> CHR 0x00 \<in> set u"
proof -
  have "CHR 0x00 \<in> set (concat (split_str CHR ''/'' u)) \<longleftrightarrow> CHR 0x00 \<in> set u"
    by (simp only: split_str_chars) simp
  then have a: "(\<exists>c \<in> set (split_str CHR ''/'' u). CHR 0x00 \<in> set c) \<longleftrightarrow> CHR 0x00 \<in> set u"
    by (simp only: set_concat) blast
  have "CHR 0x00 \<in> set c \<Longrightarrow> c \<noteq> [] \<and> c \<noteq> ''.''" for c :: string
    by auto
  then have "(\<exists>c \<in> set (filter (\<lambda>c. c \<noteq> [] \<and> c \<noteq> ''.'') xs). CHR 0x00 \<in> set c)
             \<longleftrightarrow> (\<exists>c \<in> set xs. CHR 0x00 \<in> set c)" for xs :: "string list"
    unfolding set_filter by blast
  then show ?thesis
    using a by (simp add: parse_path_def)
qed

lemma resolve_joined:
  "resolve fs (joinpath d u) =
     (if CHR 0x00 \<in> set u \<or> (\<not> startswith u ''/'' \<and> has_nul d) then Inl ValueError
      else Inr \<lparr>anchor = Root,
                parts = foldl walk_step []
                          ((if startswith u ''/'' then []
                            else (if anchor d = Relative then cwd fs else []) @ parts d)
                           @ split_str CHR ''/'' u)\<rparr>)"
proof (cases "startswith u ''/''")
  case True
  then have j: "joinpath d u = parse_path u"
    by (simp add: joinpath_def parse_path_relative)
  have a: "anchor (parse_path u) \<noteq> Relative"
    using True by (simp add: parse_path_relative)
  have "foldl walk_step [] (parts (parse_path u)) = foldl walk_step [] (split_str CHR ''/'' u)"
    by (simp add: parse_path_def foldl_walk_filter)
  then show ?thesis
    using True a by (simp add: j resolve_def has_nul_def parse_path_nul realpath_walk_foldl)
next
  case False
  then have j: "joinpath d u = d\<lparr>parts := parts d @ parts (parse_path u)\<rparr>"
    by (simp add: joinpath_def parse_path_relative)
  have n: "has_nul (d\<lparr>parts := parts d @ parts (parse_path u)\<rparr>)
           \<longleftrightarrow> has_nul d \<or> CHR 0x00 \<in> set u"
    using parse_path_nul [of u] by (auto simp: has_nul_def)
  have "foldl walk_step p (parts (parse_path u)) = foldl walk_step p (split_str CHR ''/'' u)" for p
    by (simp add: parse_path_def foldl_walk_filter)
  then show ?thesis
    using False by (auto simp: j resolve_def n realpath_walk_foldl)
qed

lemma walk_step_lambda:
  "walk_step = (\<lambda>p n. if n = [] \<or> n = ''.'' then p else if n = ''..'' then butlast p else p @ [n])"
  by (intro ext) (simp add: walk_step_def)

lemma resolve_link_eq:
  "resolve_link fs src url =
     (let u = takeWhile (\<lambda>c. c \<noteq> CHR ''#'') url
      in if startswith u ''http://'' \<or> startswith u ''https://'' \<or> startswith u ''ftp://''
         then Inr (None, External)
         else if startswith u ''mailto:'' then Inr (None, Mailto)
         else if u = [] then Inr (None, Anchor_only)
         else if CHR 0x00 \<in> set u
                 \<or> (\<not> startswith u ''/'' \<and> (\<exists>c \<in> set (butlast (parts src)). CHR 0x00 \<in> set c))
         then Inl ValueError
         else Inr (Some \<lparr>anchor = Root,
                          parts = foldl walk_step []
                            ((if startswith u ''/'' then []
                              else (if anchor src = Relative then cwd fs else [])
                                   @ butlast (parts src))
                             @ split_str CHR ''/'' u)\<rparr>, Local))"
proof -
  have n: "has_nul (parent src) \<longleftrightarrow> (\<exists>c \<in> set (butlast (parts src)). CHR 0x00 \<in> set c)"
    by (simp add: has_nul_def parent_def)
  have p: "parts (parent src) = butlast (parts src)" "anchor (parent src) = anchor src"
    by (simp_all add: parent_def)
  show ?thesis
    unfolding resolve_link_def hd_split_str Let_def resolve_joined n p
    by auto
qed

text \<open>
  Claim C10, as amended. For every source file and link URL, \<^verbatim>\<open>resolve_link\<close> works on
  the URL cut at its first \<^verbatim>\<open>#\<close>. The result is \<open>(None, External)\<close> exactly when the
  cut URL starts with \<^verbatim>\<open>http://\<close>, \<^verbatim>\<open>https://\<close> or \<^verbatim>\<open>ftp://\<close>; \<open>(None, Mailto)\<close>
  exactly when it starts with \<^verbatim>\<open>mailto:\<close>; \<open>(None, Anchor_only)\<close> exactly when it is
  empty. In every other case the cut URL is joined to the parent directory of the source
  file (an URL that starts with a slash replaces it) and resolved: when the URL, or the
  directory it is joined to, holds a NUL character the call raises ValueError; otherwise
  the result is tagged \<open>Local\<close> and is the absolute path reached by walking, from the
  root, the names of the current directory (for a relative source file), of the parent
  directory and of the URL, where empty names and \<^verbatim>\<open>.\<close> are skipped and \<^verbatim>\<open>..\<close> steps
  up. No other exception and no fifth tag occur.
\<close>

theorem resolve_link_cases:
  "(let u = takeWhile (\<lambda>c. c \<noteq> CHR ''#'') url;
        ext = (startswith u ''http://'' \<or> startswith u ''https://'' \<or> startswith u ''ftp://'');
        base = (if startswith u ''/'' then []
                else (if anchor src = Relative then cwd fs else []) @ butlast (parts src));
        nul = (CHR 0x00 \<in> set u
               \<or> (\<not> startswith u ''/'' \<and> (\<exists>c \<in> set (butlast (parts src)). CHR 0x00 \<in> set c)))
    in (u = url \<or> (\<exists>rest. url = u @ CHR ''#'' # rest))
       \<and> CHR ''#'' \<notin> set u
       \<and> (\<exists>names. names \<noteq> [] \<and> CHR ''/'' \<notin> set (concat names)
             \<and> concat (map (\<lambda>n. n @ ''/'') names) = u @ ''/''
             \<and> resolve_link fs src url =
                  (if ext then Inr (None, External)
                   else if startswith u ''mailto:'' then Inr (None, Mailto)
                   else if u = [] then Inr (None, Anchor_only)
                   else if nul then Inl ValueError
                   else Inr (Some \<lparr>anchor = Root,
                                    parts = foldl (\<lambda>p n. if n = [] \<or> n = ''.'' then p
                                                         else if n = ''..'' then butlast p
                                                         else p @ [n])
                                              [] (base @ names)\<rparr>, Local)))
       \<and> (resolve_link fs src url = Inr (None, External) \<longleftrightarrow> ext)
       \<and> (resolve_link fs src url = Inr (None, Mailto) \<longleftrightarrow> startswith u ''mailto:'')
       \<and> (resolve_link fs src url = Inr (None, Anchor_only) \<longleftrightarrow> u = [])
       \<and> ((\<exists>e. resolve_link fs src url = Inl e) \<longleftrightarrow>
            \<not> ext \<and> \<not> startswith u ''mailto:'' \<and> u \<noteq> [] \<and> nul)
       \<and> (resolve_link fs src url = Inl ValueError \<longleftrightarrow>
            \<not> ext \<and> \<not> startswith u ''mailto:'' \<and> u \<noteq> [] \<and> nul)
       \<and> ((\<exists>t. resolve_link fs src url = Inr (Some t, Local)) \<longleftrightarrow>
            \<not> ext \<and> \<not> startswith u ''mailto:'' \<and> u \<noteq> [] \<and> \<not> nul))"
proof -
  define u where "u = takeWhile (\<lambda>c. c \<noteq> CHR ''#'') url"
  define ext where
    "ext = (startswith u ''http://'' \<or> startswith u ''https://'' \<or> startswith u ''ftp://'')"
  define base where
    "base = (if startswith u ''/'' then []
             else (if anchor src = Relative then cwd fs else []) @ butlast (parts src))"
  define nul where
    "nul = (CHR 0x00 \<in> set u
            \<or> (\<not> startswith u ''/'' \<and> (\<exists>c \<in> set (butlast (parts src)). CHR 0x00 \<in> set c)))"
  define names where "names = split_str CHR ''/'' u"
  define target where
    "target = \<lparr>anchor = Root,
               parts = foldl (\<lambda>p n. if n = [] \<or> n = ''.'' then p
                                    else if n = ''..'' then butlast p
                                    else p @ [n])
                         [] (base @ names)\<rparr>"
  have split: "u = url \<or> (\<exists>rest. url = u @ CHR ''#'' # rest)"
    unfolding u_def using takeWhile_first_hash [of "CHR ''#''" url] by metis
  have nohash: "CHR ''#'' \<notin> set u"
    unfolding u_def by (auto dest: set_takeWhileD)
  have names: "names \<noteq> []" "CHR ''/'' \<notin> set (concat names)"
    "concat (map (\<lambda>n. n @ ''/'') names) = u @ ''/''"
    unfolding names_def
    using split_str_nonempty split_str_no_sep split_str_concat [of "CHR ''/''" u]
    by simp_all
  have eq: "resolve_link fs src url =
              (if ext then Inr (None, External)
               else if startswith u ''mailto:'' then Inr (None, Mailto)
               else if u = [] then Inr (None, Anchor_only)
               else if nul then Inl ValueError
               else Inr (Some target, Local))"
    unfolding resolve_link_eq [of fs src url] Let_def u_def [symmetric] ext_def [symmetric]
      nul_def [symmetric] base_def [symmetric] names_def [symmetric] target_def
      walk_step_lambda
    by simp
  have excl: "startswith u ''mailto:'' \<Longrightarrow> \<not> ext"
    unfolding ext_def by (rule startswith_exclusive)
  have ne1: "ext \<Longrightarrow> u \<noteq> []"
    unfolding ext_def by (auto dest: startswith_nonempty)
  have ne2: "startswith u ''mailto:'' \<Longrightarrow> u \<noteq> []"
    by (auto dest: startswith_nonempty)
  have tags:
    "resolve_link fs src url = Inr (None, External) \<longleftrightarrow> ext"
    "resolve_link fs src url = Inr (None, Mailto) \<longleftrightarrow> startswith u ''mailto:''"
    "resolve_link fs src url = Inr (None, Anchor_only) \<longleftrightarrow> u = []"
    "(\<exists>e. resolve_link fs src url = Inl e) \<longleftrightarrow>
       \<not> ext \<and> \<not> startswith u ''mailto:'' \<and> u \<noteq> [] \<and> nul"
    "resolve_link fs src url = Inl ValueError \<longleftrightarrow>
       \<not> ext \<and> \<not> startswith u ''mailto:'' \<and> u \<noteq> [] \<and> nul"
    "(\<exists>t. resolve_link fs src url = Inr (Some t, Local)) \<longleftrightarrow>
       \<not> ext \<and> \<not> startswith u ''mailto:'' \<and> u \<noteq> [] \<and> \<not> nul"
    using excl ne1 ne2 by (auto simp: eq)
  have main: "\<exists>names. names \<noteq> [] \<and> CHR ''/'' \<notin> set (concat names)
             \<and> concat (map (\<lambda>n. n @ ''/'') names) = u @ ''/''
             \<and> resolve_link fs src url =
                  (if ext then Inr (None, External)
                   else if startswith u ''mailto:'' then Inr (None, Mailto)
                   else if u = [] then Inr (None, Anchor_only)
                   else if nul then Inl ValueError
                   else Inr (Some \<lparr>anchor = Root,
                                    parts = foldl (\<lambda>p n. if n = [] \<or> n = ''.'' then p
                                                         else if n = ''..'' then butlast p
                                                         else p @ [n])
                                              [] (base @ names)\<rparr>, Local))"
    using names eq unfolding target_def by blast
  show ?thesis
    unfolding Let_def u_def [symmetric] ext_def [symmetric] base_def [symmetric]
      nul_def [symmetric]
    using split nohash main tags by blast
qed

theorem resolve_link_cases_witness:
  "resolve_link example_fs_inside (parse_path ''docs/a.md'') ''../x/./y//z.md#frag''
     = Inr (Some \<lparr>anchor = Root, parts = [''repo'', ''x'', ''y'', ''z.md'']\<rparr>, Local)
   \<and> resolve_link example_fs_inside (parse_path ''/q/../repo/docs/a.md'') ''img/logo.png''
     = Inr (Some \<lparr>anchor = Root, parts = [''repo'', ''docs'', ''img'', ''logo.png'']\<rparr>, Local)
   \<and> resolve_link example_fs_inside (parse_path ''/repo/docs/a.md'') ''https://e.org/x#y''
     = Inr (None, External)
   \<and> resolve_link example_fs_inside (parse_path ''/repo/docs/a.md'') ''#top''
     = Inr (None, Anchor_only)"
proof -
  have a: "resolve_link example_fs_inside (parse_path ''docs/a.md'') ''../x/./y//z.md#frag''
     = Inr (Some \<lparr>anchor = Root, parts = [''repo'', ''x'', ''y'', ''z.md'']\<rparr>, Local)"
    by code_simp
  have b: "resolve_link example_fs_inside (parse_path ''/q/../repo/docs/a.md'') ''img/logo.png''
     = Inr (Some \<lparr>anchor = Root, parts = [''repo'', ''docs'', ''img'', ''logo.png'']\<rparr>, Local)"
    by code_simp
  have c: "startswith (takeWhile (\<lambda>c. c \<noteq> CHR ''#'') ''https://e.org/x#y'') ''https://''"
    by code_simp
  have d: "takeWhile (\<lambda>c. c \<noteq> CHR ''#'') ''#top'' = []"
    by simp
  have c': "resolve_link example_fs_inside (parse_path ''/repo/docs/a.md'') ''https://e.org/x#y''
     = Inr (None, External)"
    using resolve_link_cases [of "''https://e.org/x#y''" "parse_path ''/repo/docs/a.md''"
        example_fs_inside] c
    unfolding Let_def by blast
  have d': "resolve_link example_fs_inside (parse_path ''/repo/docs/a.md'') ''#top''
     = Inr (None, Anchor_only)"
    using resolve_link_cases [of "''#top''" "parse_path ''/repo/docs/a.md''" example_fs_inside] d
    unfolding Let_def by metis
  from a b c' d' show ?thesis
    by blast
qed

text \<open>
  The claim as first stated, that \<^verbatim>\<open>resolve_link\<close> never raises, fails on a URL with a
  NUL character.
\<close>

theorem resolve_link_raises_counterexample:
  "resolve_link example_fs_inside (parse_path ''/repo/docs/a.md'') (''b'' @ [CHR 0x00] @ ''.md'')
     = Inl ValueError"
  by code_simp

subsection \<open>The loops of main\<close>

lemma map_result_Inr:
  "(\<And>x. x \<in> set xs \<Longrightarrow> \<exists>y. f x = Inr y) \<Longrightarrow> \<exists>ys. map_result f xs = Inr ys"
proof (induction xs)
  case Nil
  then show ?case by simp
next
  case (Cons x xs)
  then obtain y where "f x = Inr y" by fastforce
  moreover from Cons obtain ys where "map_result f xs = Inr ys" by fastforce
  ultimately show ?case by simp
qed

lemma map_result_Inl:
  "x \<in> set xs \<Longrightarrow> f x = Inl e \<Longrightarrow> \<exists>e'. map_result f xs = Inl e'"
  by (induction xs) (auto split: sum.splits)

lemma map_result_all2:
  "map_result f xs = Inr ys \<Longrightarrow> list_all2 (\<lambda>x y. f x = Inr y) xs ys"
  by (induction xs arbitrary: ys) (auto split: sum.splits)

lemma map_result_completes:
  "(\<exists>ys. map_result f xs = Inr ys) \<longleftrightarrow> (\<forall>x \<in> set xs. \<exists>y. f x = Inr y)"
proof
  assume "\<exists>ys. map_result f xs = Inr ys"
  then obtain ys where "list_all2 (\<lambda>x y. f x = Inr y) xs ys"
    using map_result_all2 by blast
  then show "\<forall>x \<in> set xs. \<exists>y. f x = Inr y"
    by (auto simp: list_all2_conv_all_nth in_set_conv_nth)
next
  assume "\<forall>x \<in> set xs. \<exists>y. f x = Inr y"
  then show "\<exists>ys. map_result f xs = Inr ys"
    by (intro map_result_Inr) blast
qed

lemma map_result_member:
  "map_result f xs = Inr ys \<Longrightarrow> y \<in> set ys \<Longrightarrow> \<exists>x \<in> set xs. f x = Inr y"
proof -
  assume "map_result f xs = Inr ys" and y: "y \<in> set ys"
  then have "list_all2 (\<lambda>x y. f x = Inr y) xs ys"
    by (intro map_result_all2)
  with y obtain i where "i < length xs" and "f (xs ! i) = Inr y"
    by (auto simp: list_all2_conv_all_nth in_set_conv_nth)
  then show ?thesis
    using nth_mem by blast
qed

lemma check_link_source: "check_link fs md l = Inr bs \<Longrightarrow> b \<in> set bs \<Longrightarrow> source b = md"
  by (auto simp: check_link_def
      split: prod.splits sum.splits option.splits link_type.splits bool.splits)

lemma check_file_source:
  "check_file fs md = Inr (ls, bs) \<Longrightarrow> b \<in> set bs \<Longrightarrow> source b = md"
proof -
  assume c: "check_file fs md = Inr (ls, bs)" and b: "b \<in> set bs"
  from c obtain links found where
    m: "map_result (check_link fs md) links = Inr found" and bs: "bs = concat found"
    by (auto simp: check_file_def split: sum.splits)
  from b bs obtain f where f: "f \<in> set found" and bf: "b \<in> set f"
    by auto
  from map_result_member [OF m f] obtain l where "check_link fs md l = Inr f"
    by blast
  then show ?thesis
    using bf by (rule check_link_source)
qed

lemma check_files_source:
  "check_files fs mds = Inr (ls, bl) \<Longrightarrow> b \<in> set bl \<Longrightarrow> source b \<in> set mds"
proof -
  assume c: "check_files fs mds = Inr (ls, bl)" and b: "b \<in> set bl"
  from c obtain rs where
    m: "map_result (check_file fs) (sort_key cparts mds) = Inr rs"
    and bl: "bl = concat (map snd rs)"
    by (auto simp: check_files_def split: sum.splits)
  from b bl obtain r where r: "r \<in> set rs" and br: "b \<in> set (snd r)"
    by auto
  from map_result_member [OF m r] obtain md where
    md: "md \<in> set (sort_key cparts mds)" and cf: "check_file fs md = Inr r"
    by blast
  from cf br have "source b = md"
    using check_file_source [of fs md "fst r" "snd r" b] by simp
  with md show ?thesis
    by simp
qed

lemma joinpath_docs: "joinpath root ''docs'' = root\<lparr>parts := parts root @ [''docs'']\<rparr>"
proof -
  have "parse_path ''docs'' = \<lparr>anchor = Relative, parts = [''docs'']\<rparr>"
    by code_simp
  then show ?thesis
    by (simp add: joinpath_def)
qed

lemma joinpath_readme:
  "joinpath root ''README.md'' = root\<lparr>parts := parts root @ [''README.md'']\<rparr>"
proof -
  have "parse_path ''README.md'' = \<lparr>anchor = Relative, parts = [''README.md'']\<rparr>"
    by code_simp
  then show ?thesis
    by (simp add: joinpath_def)
qed

lemma rglob_md_under:
  "rglob_md fs d = Inr found \<Longrightarrow> md \<in> set found \<Longrightarrow>
     anchor md = anchor d \<and> prefix (parts d) (parts md)"
  by (auto simp: rglob_md_def Let_def split: sum.splits bool.splits if_splits)

lemma md_files_under_root:
  "md_files fs root = Inr mds \<Longrightarrow> md \<in> set mds \<Longrightarrow>
     anchor md = anchor root \<and> prefix (parts root) (parts md)"
proof -
  assume m: "md_files fs root = Inr mds" and md: "md \<in> set mds"
  from m obtain found where
    f: "rglob_md fs (joinpath root ''docs'') = Inr found"
    and mds: "set mds \<subseteq> set found \<union> {joinpath root ''README.md''}"
    by (auto simp: md_files_def split: sum.splits bool.splits)
  from md mds consider "md \<in> set found" | "md = joinpath root ''README.md''"
    by blast
  then show ?thesis
  proof cases
    case 1
    from rglob_md_under [OF f 1] show ?thesis
      by (auto simp: joinpath_docs dest: append_prefixD)
  next
    case 2
    then show ?thesis
      by (simp add: joinpath_readme)
  qed
qed

lemma by_file_add_keys:
  "fst ` set (by_file_add m b) = insert (source b) (fst ` set m)"
proof (cases "map_of m (source b)")
  case None
  then show ?thesis
    by (simp add: by_file_add_def)
next
  case (Some issues)
  then have "source b \<in> fst ` set m"
    by (metis map_of_eq_None_iff option.distinct(1))
  moreover have "map fst (map (\<lambda>(k, v). if k = source b then (k, v @ [b]) else (k, v)) m)
                 = map fst m"
    by (induction m) (auto split: prod.splits)
  then have "fst ` set (map (\<lambda>(k, v). if k = source b then (k, v @ [b]) else (k, v)) m)
             = fst ` set m"
    by (metis set_map)
  ultimately show ?thesis
    using Some by (auto simp: by_file_add_def)
qed

lemma group_keys_aux: "fst ` set (foldl by_file_add m bl) = fst ` set m \<union> source ` set bl"
  by (induction bl arbitrary: m) (auto simp: by_file_add_keys)

lemma group_by_file_keys: "fst ` set (group_by_file bl) = source ` set bl"
  by (simp add: group_by_file_def group_keys_aux)

lemma report_file_Inr:
  "anchor src = anchor root \<Longrightarrow> prefix (parts root) (parts src) \<Longrightarrow>
     \<exists>ls. report_file root (src, issues) = Inr ls"
  by (simp add: report_file_def relative_to_def)

lemma broken_links_source:
  assumes "broken_links fs root = Inr bl" and "b \<in> set bl"
  shows "anchor (source b) = anchor root \<and> prefix (parts root) (parts (source b))"
proof -
  from assms(1) obtain mds links where
    m: "md_files fs root = Inr mds" and c: "check_files fs mds = Inr (links, bl)"
    by (auto simp: broken_links_def split: sum.splits)
  from check_files_source [OF c assms(2)] have "source b \<in> set mds" .
  with m show ?thesis
    by (rule md_files_under_root)
qed

lemma report_loop_completes:
  assumes "broken_links fs root = Inr bl"
  shows "\<exists>printed. map_result (report_file root)
           (sort_key (\<lambda>item. cparts (fst item)) (group_by_file bl)) = Inr printed"
proof (rule map_result_Inr)
  fix x
  assume "x \<in> set (sort_key (\<lambda>item. cparts (fst item)) (group_by_file bl))"
  then have "fst x \<in> fst ` set (group_by_file bl)"
    by auto
  then have "fst x \<in> source ` set bl"
    by (simp add: group_by_file_keys)
  then obtain b where "b \<in> set bl" and "fst x = source b"
    by auto
  then have "anchor (fst x) = anchor root \<and> prefix (parts root) (parts (fst x))"
    using broken_links_source [OF assms, of b] by simp
  then show "\<exists>y. report_file root x = Inr y"
    using report_file_Inr [of "fst x" root "snd x"] by simp
qed

lemma relative_to_Inl: "relative_to p root = Inl e \<Longrightarrow> e = ValueError"
  by (simp add: relative_to_def split: if_splits)

lemma missing_files_raises:
  assumes "b \<in> set bl"
    and "\<not> (anchor (resolved_path b) = anchor root
            \<and> prefix (parts root) (parts (resolved_path b)))"
  shows "missing_files root bl = Inl ValueError"
proof -
  have "relative_to (resolved_path b) root = Inl ValueError"
    using assms(2) by (auto simp: relative_to_def)
  with assms(1) obtain e where
    e: "map_result (\<lambda>broken. relative_to (resolved_path broken) root) bl = Inl e"
    using map_result_Inl [of b bl "\<lambda>broken. relative_to (resolved_path broken) root"]
    by blast
  have "e = ValueError"
    using e
  proof (induction bl)
    case Nil
    then show ?case by simp
  next
    case (Cons a bl)
    then show ?case
      by (auto split: sum.splits dest: relative_to_Inl)
  qed
  with e show ?thesis
    by (simp add: missing_files_def)
qed

lemma missing_files_returns:
  assumes "\<And>b. b \<in> set bl \<Longrightarrow> anchor (resolved_path b) = anchor root
                                \<and> prefix (parts root) (parts (resolved_path b))"
  shows "\<exists>ms. missing_files root bl = Inr ms"
proof -
  have "\<exists>ts. map_result (\<lambda>broken. relative_to (resolved_path broken) root) bl = Inr ts"
    using assms by (intro map_result_Inr) (simp add: relative_to_def)
  then show ?thesis
    by (auto simp: missing_files_def)
qed

text \<open>
  Claim C8. When the loops of \<^verbatim>\<open>main\<close> have come to their end and some broken local
  link of a markdown file resolves to a path outside the repository root, \<^verbatim>\<open>main\<close>
  ends with an uncaught ValueError raised by \<^verbatim>\<open>relative_to\<close> in the summary loop,
  and returns no exit code. The loop that prints the broken links has run to its end
  before: there the same conversion is guarded, and the line for the target shows the
  resolved path as it is.
\<close>

theorem main_summary_raises:
  assumes "broken_links fs (repo_root file_name) = Inr bl"
    and "broken \<in> set bl"
    and "\<not> (anchor (resolved_path broken) = anchor (repo_root file_name)
            \<and> prefix (parts (repo_root file_name)) (parts (resolved_path broken)))"
  shows "snd (main fs file_name) = Inl ValueError
         \<and> (\<exists>printed. map_result (report_file (repo_root file_name))
                (sort_key (\<lambda>item. cparts (fst item)) (group_by_file bl)) = Inr printed)
         \<and> report_issue (repo_root file_name) broken ! 2
             = Target_line (path_str (resolved_path broken))"
proof -
  let ?root = "repo_root file_name"
  from assms(1) obtain mds links where
    m: "md_files fs ?root = Inr mds" and c: "check_files fs mds = Inr (links, bl)"
    by (auto simp: broken_links_def split: sum.splits)
  obtain printed where
    rep: "map_result (report_file ?root)
            (sort_key (\<lambda>item. cparts (fst item)) (group_by_file bl)) = Inr printed"
    using report_loop_completes [OF assms(1)] by blast
  have sum: "missing_files ?root bl = Inl ValueError"
    using assms(2,3) by (rule missing_files_raises)
  have ne: "bl \<noteq> []"
    using assms(2) by auto
  have "snd (main fs file_name) = Inl ValueError"
    using m c rep sum ne by (simp add: main_def Let_def)
  moreover have "report_issue ?root broken ! 2 = Target_line (path_str (resolved_path broken))"
    using assms(3) by (auto simp: report_issue_def relative_to_def)
  ultimately show ?thesis
    using rep by blast
qed

theorem main_summary_raises_witness:
  "snd (main example_fs_outside example_file_name) = Inl ValueError
   \<and> broken_links example_fs_outside (repo_root example_file_name) = Inr [example_broken]
   \<and> report_issue (repo_root example_file_name) example_broken ! 2
       = Target_line ''/outside.md''"
proof -
  have h1: "broken_links example_fs_outside (repo_root example_file_name)
              = Inr [example_broken]"
    by code_simp
  have h2: "example_broken \<in> set [example_broken]"
    by simp
  have h3: "\<not> (anchor (resolved_path example_broken) = anchor (repo_root example_file_name)
              \<and> prefix (parts (repo_root example_file_name))
                   (parts (resolved_path example_broken)))"
    by code_simp
  have h4: "path_str (resolved_path example_broken) = ''/outside.md''"
    by code_simp
  from main_summary_raises [OF h1 h2 h3] h1 h4 show ?thesis
    by simp
qed

section \<open>Properties of the GPIO core\<close>

subsection \<open>Wire.scan\<close>

lemma scan_loop_eq:
  "scan_loop bus as w found =
     (found @ filter (\<lambda>a. bus a = Ack) as,
      w\<lparr>io_log := io_log w @ map ZeroLengthWrite as\<rparr>)"
proof (induction as arbitrary: w found)
  case Nil
  show ?case by simp
next
  case (Cons a as)
  show ?case
    by (cases "bus a") (simp_all add: Cons.IH)
qed

lemma scan_result:
  "handle w = Some h \<Longrightarrow>
     scan bus w = (Inr (filter (\<lambda>a. bus a = Ack) scan_addresses),
                   w\<lparr>io_log := io_log w @ map ZeroLengthWrite scan_addresses\<rparr>)"
  by (simp add: scan_def scan_loop_eq)

lemma scan_addresses_ascending: "sorted_wrt (<) (filter P scan_addresses)"
  unfolding scan_addresses_def by (rule sorted_wrt_filter) (rule sorted_wrt_upt)

lemma scan_addresses_distinct: "distinct (filter P scan_addresses)"
  unfolding scan_addresses_def by (rule distinct_filter) (rule distinct_upt)

lemma scan_addresses_set: "set scan_addresses = {a. 0x03 \<le> a \<and> a \<le> 0x77}"
proof -
  have "set scan_addresses = {0x03 ..< 0x78}"
    unfolding scan_addresses_def by (rule set_upt)
  also have "\<dots> = {a. 0x03 \<le> a \<and> a \<le> (0x77 :: nat)}"
    by auto
  finally show ?thesis .
qed

lemma filter_two_addresses:
  "filter (\<lambda>a. a = 0x23 \<or> a = 0x68) scan_addresses = [0x23, 0x68]"
  by code_simp

text \<open>
  Claim C1. On an open bus, whatever the devices, \<^verbatim>\<open>Wire.scan()\<close> issues exactly one
  zero-length write to each of the addresses 0x03 to 0x77, in order, and returns the
  addresses that acknowledged: strictly ascending, without duplicates, empty when none
  acknowledges (a transport failure is no acknowledgement). With devices at 0x23 and
  0x68 only, the result is \<open>[0x23, 0x68]\<close>.
\<close>

theorem wire_scan_ascending:
  assumes "handle w \<noteq> None"
  shows "scan_addresses = [0x03 ..< 0x78]
       \<and> fst (scan bus w) = Inr (filter (\<lambda>a. bus a = Ack) scan_addresses)
       \<and> io_log (snd (scan bus w)) = io_log w @ map ZeroLengthWrite scan_addresses
       \<and> handle (snd (scan bus w)) = handle w
       \<and> (\<exists>found. fst (scan bus w) = Inr found
             \<and> sorted_wrt (<) found \<and> distinct found
             \<and> set found = {a. 0x03 \<le> a \<and> a \<le> 0x77 \<and> bus a = Ack})
       \<and> ((\<forall>a. 0x03 \<le> a \<and> a \<le> 0x77 \<longrightarrow> bus a \<noteq> Ack) \<longrightarrow> fst (scan bus w) = Inr [])
       \<and> ((\<forall>a. bus a = Ack \<longleftrightarrow> a = 0x23 \<or> a = 0x68) \<longrightarrow> fst (scan bus w) = Inr [0x23, 0x68])"
proof -
  let ?found = "filter (\<lambda>a. bus a = Ack) scan_addresses"
  from assms obtain h where h: "handle w = Some h"
    by auto
  have res: "fst (scan bus w) = Inr ?found"
    by (simp add: scan_result [OF h])
  have log: "io_log (snd (scan bus w)) = io_log w @ map ZeroLengthWrite scan_addresses"
    by (simp add: scan_result [OF h])
  have hdl: "handle (snd (scan bus w)) = handle w"
    by (simp add: scan_result [OF h])
  have asc: "sorted_wrt (<) ?found"
    by (rule scan_addresses_ascending)
  have dist: "distinct ?found"
    by (rule scan_addresses_distinct)
  have mem: "set ?found = {a. 0x03 \<le> a \<and> a \<le> 0x77 \<and> bus a = Ack}"
    unfolding set_filter scan_addresses_set by blast
  have none: "(\<forall>a. 0x03 \<le> a \<and> a \<le> 0x77 \<longrightarrow> bus a \<noteq> Ack) \<longrightarrow> ?found = []"
    unfolding filter_empty_conv scan_addresses_set by blast
  have two: "(\<forall>a. bus a = Ack \<longleftrightarrow> a = 0x23 \<or> a = 0x68) \<longrightarrow> ?found = [0x23, 0x68]"
  proof
    assume "\<forall>a. bus a = Ack \<longleftrightarrow> a = 0x23 \<or> a = 0x68"
    then have "(\<lambda>a. bus a = Ack) = (\<lambda>a. a = 0x23 \<or> a = 0x68)"
      by blast
    then show "?found = [0x23, 0x68]"
      by (simp only: filter_two_addresses)
  qed
  have rng: "scan_addresses = [0x03 ..< 0x78]"
    by (rule scan_addresses_def)
  show ?thesis
    unfolding res using rng log hdl asc dist mem none two by blast
qed

theorem wire_scan_ascending_witness:
  "fst (scan example_devices example_wire) = Inr [0x23, 0x68]
   \<and> fst (scan (\<lambda>a. Nack) example_wire) = Inr []
   \<and> io_log (snd (scan example_devices example_wire)) = map ZeroLengthWrite [0x03 ..< 0x78]"
proof -
  have h: "handle example_wire \<noteq> None"
    by (simp add: example_wire_def)
  have two: "\<forall>a. example_devices a = Ack \<longleftrightarrow> a = 0x23 \<or> a = 0x68"
    by (simp add: example_devices_def)
  have none: "\<forall>a. 0x03 \<le> a \<and> a \<le> 0x77 \<longrightarrow> (\<lambda>a :: nat. Nack) a \<noteq> Ack"
    by simp
  have l: "io_log example_wire = []"
    by (simp add: example_wire_def)
  have r1: "fst (scan example_devices example_wire) = Inr [0x23, 0x68]"
    using wire_scan_ascending [OF h, of example_devices] two by blast
  have r2: "fst (scan (\<lambda>a. Nack) example_wire) = Inr []"
    using wire_scan_ascending [OF h, of "\<lambda>a. Nack"] none by blast
  have r3: "io_log (snd (scan example_devices example_wire))
            = map ZeroLengthWrite [0x03 ..< 0x78]"
    using wire_scan_ascending [OF h, of example_devices] l by (simp del: upt_rec_numeral)
  from r1 r2 r3 show ?thesis
    by blast
qed

subsection \<open>pinMode\<close>

text \<open>
  Claim C3. After a successful \<^verbatim>\<open>pinMode(pin, mode)\<close>, a query of the mode of that pin
  gives the mode just set, and the call succeeds exactly for a pin in range whose line is
  not held elsewhere. On a pin out of range the call fails with InvalidPin and the state,
  so every mode, is as before.
\<close>

theorem pinMode_then_query:
  "(fst (pinMode p m c) = None \<longrightarrow> mode_query (snd (pinMode p m c)) p = Some m)
   \<and> (fst (pinMode p m c) = None \<longleftrightarrow> (\<exists>l. adapter c p = Some l \<and> \<not> held_elsewhere c l))
   \<and> (adapter c p = None \<longrightarrow>
        pinMode p m c = (Some InvalidPin, c)
        \<and> mode_query (snd (pinMode p m c)) = mode_query c)"
  by (auto simp: pinMode_def mode_query_def Let_def split: option.splits)

theorem pinMode_then_query_witness:
  "mode_query (snd (pinMode 17 OUTPUT example_controller)) 17 = Some OUTPUT
   \<and> mode_query example_controller 17 = None
   \<and> fst (pinMode 99 INPUT_PULLUP example_controller) = Some InvalidPin
   \<and> mode_query (snd (pinMode 99 INPUT_PULLUP example_controller)) 99 = None"
proof -
  have ok: "fst (pinMode 17 OUTPUT example_controller) = None"
    by (simp add: pinMode_def example_controller_def)
  have bad: "adapter example_controller 99 = None"
    by (simp add: example_controller_def)
  have before: "mode_query example_controller 17 = None"
    "mode_query example_controller 99 = None"
    by (simp_all add: mode_query_def example_controller_def unset_pin_def)
  from pinMode_then_query [of 17 OUTPUT example_controller]
    pinMode_then_query [of 99 INPUT_PULLUP example_controller] ok bad before
  show ?thesis
    by simp
qed

end
